theory Spec2Isabelle
  imports Main
begin

section \<open>Viewport and breakpoint table\<close>

text \<open>
  The browser state the TypeScript module reads: \<^verbatim>\<open>window.innerWidth\<close> and
  \<^verbatim>\<open>window.innerHeight\<close>, whole numbers of CSS pixels.
\<close>

record window =
  innerWidth :: int
  innerHeight :: int

text \<open>
  \<^verbatim>\<open>BreakpointManager.breakpoints\<close>: a private object literal that is never
  reassigned. \<^verbatim>\<open>Object.entries\<close> and \<^verbatim>\<open>Object.keys\<close> enumerate its string keys
  in insertion order, so the table is an association list. Breakpoint names are the
  run-time strings.
\<close>

definition breakpoints :: "(string \<times> int) list" where
  "breakpoints =
     [(''xs'', 0), (''sm'', 576), (''md'', 768), (''lg'', 1024), (''xl'', 1280), (''xxl'', 1536)]"

text \<open>
  \<^verbatim>\<open>getCurrentBreakpoint\<close>: \<^verbatim>\<open>let current = 'xs'\<close>, then a \<^verbatim>\<open>forEach\<close> over
  the entries that overwrites \<^verbatim>\<open>current\<close> whenever \<^verbatim>\<open>width >= minWidth\<close>.
\<close>

definition getCurrentBreakpoint :: "window \<Rightarrow> string" where
  "getCurrentBreakpoint win =
     (let width = innerWidth win
      in foldl (\<lambda>current (name, minWidth). if width \<ge> minWidth then name else current)
           ''xs'' breakpoints)"

text \<open>
  \<^verbatim>\<open>Array.prototype.indexOf\<close>: the position of the first element equal to the
  argument, \<open>-1\<close> when there is none.
\<close>

fun indexOf :: "'a list \<Rightarrow> 'a \<Rightarrow> int" where
  "indexOf [] x = -1"
| "indexOf (y # ys) x =
     (if y = x then 0 else (let i = indexOf ys x in if i < 0 then -1 else i + 1))"

text \<open>\<^verbatim>\<open>Object.keys(this.breakpoints)\<close>.\<close>

definition breakpointNames :: "string list" where
  "breakpointNames = map fst breakpoints"

section \<open>BreakpointManager\<close>

text \<open>The change record \<^verbatim>\<open>ViewportChangeDetail\<close>.\<close>

record ViewportChangeDetail =
  oldBreakpoint :: string
  newBreakpoint :: string
  width :: int
  height :: int

text \<open>
  The listener registries. A callback is an opaque value of type \<open>'cb\<close>; the arrays keep
  registration order and the two \<^verbatim>\<open>Record<string, ...>\<close> objects are maps from breakpoint
  name to array (they are only ever indexed with breakpoint names).
\<close>

record 'cb callbacks =
  change :: "'cb list"
  enter :: "string \<rightharpoonup> 'cb list"
  exit :: "string \<rightharpoonup> 'cb list"

datatype ResizeObserver = Observing | Disconnected

text \<open>
  The fields of the class, and \<open>debounceTimeout\<close> for the variable \<^verbatim>\<open>timeout\<close> captured by
  the closure that \<^verbatim>\<open>debounce\<close> returns in \<^verbatim>\<open>init\<close>.
\<close>

record 'cb manager =
  currentBreakpoint :: string
  previousBreakpoint :: "string option"
  resizeObserver :: "ResizeObserver option"
  callbacks :: "'cb callbacks"
  debounceTimeout :: "nat option"

text \<open>
  What a callback can read from the manager while it runs: the two breakpoint fields.
  Callbacks are taken not to call back into the manager's mutators.
\<close>

record observed =
  obsCurrent :: string
  obsPrevious :: "string option"

definition observe :: "'cb manager \<Rightarrow> observed" where
  "observe m = \<lparr>obsCurrent = currentBreakpoint m, obsPrevious = previousBreakpoint m\<rparr>"

text \<open>
  The effects of the manager on the outside, in the order they happen. Each callback
  invocation carries the manager fields as they are at the moment of the call.
\<close>

datatype 'cb effect =
    CallChange 'cb ViewportChangeDetail observed
  | CallExit 'cb observed
  | CallEnter 'cb observed
  | DispatchEvent string ViewportChangeDetail
  | ConsoleLog string

text \<open>A template literal prints \<^verbatim>\<open>null\<close> as the word.\<close>

definition showName :: "string option \<Rightarrow> string" where
  "showName v = (case v of None \<Rightarrow> ''null'' | Some s \<Rightarrow> s)"

text \<open>The right arrow U+2192 of the log message, as its UTF-8 bytes.\<close>

definition arrow :: string where
  "arrow = [char_of (226::nat), char_of (134::nat), char_of (146::nat)]"

text \<open>The constructor followed by \<^verbatim>\<open>init\<close>.\<close>

definition newBreakpointManager :: "window \<Rightarrow> 'cb manager \<times> 'cb effect list" where
  "newBreakpointManager win =
     (let m = \<lparr>currentBreakpoint = getCurrentBreakpoint win,
                previousBreakpoint = None,
                resizeObserver = Some Observing,
                callbacks = \<lparr>change = [], enter = Map.empty, exit = Map.empty\<rparr>,
                debounceTimeout = None\<rparr>
      in (m, [ConsoleLog (''[BreakpointManager] Initialized at breakpoint: '' @ currentBreakpoint m)]))"

text \<open>
  \<^verbatim>\<open>checkBreakpointChange\<close>. The guard \<^verbatim>\<open>this.previousBreakpoint && ...exit[...]\<close> needs a
  non-null, non-empty name and a registered array (an empty array is truthy too).
\<close>

definition checkBreakpointChange :: "window \<Rightarrow> 'cb manager \<Rightarrow> 'cb manager \<times> 'cb effect list" where
  "checkBreakpointChange win m =
     (let newBp = getCurrentBreakpoint win
      in if newBp \<noteq> currentBreakpoint m then
           let m1 = m\<lparr>previousBreakpoint := Some (currentBreakpoint m)\<rparr>;
               m2 = m1\<lparr>currentBreakpoint := newBp\<rparr>;
               detail = \<lparr>oldBreakpoint = the (previousBreakpoint m2),
                         newBreakpoint = currentBreakpoint m2,
                         width = innerWidth win,
                         height = innerHeight win\<rparr>;
               changeCalls = map (\<lambda>callback. CallChange callback detail (observe m2))
                               (change (callbacks m2));
               exitCalls =
                 (case previousBreakpoint m2 of
                    None \<Rightarrow> []
                  | Some p \<Rightarrow>
                      if p = [] then []
                      else (case exit (callbacks m2) p of
                              None \<Rightarrow> []
                            | Some cbs \<Rightarrow> map (\<lambda>cb. CallExit cb (observe m2)) cbs));
               enterCalls =
                 (case enter (callbacks m2) (currentBreakpoint m2) of
                    None \<Rightarrow> []
                  | Some cbs \<Rightarrow> map (\<lambda>cb. CallEnter cb (observe m2)) cbs)
           in (m2, changeCalls @ exitCalls @ enterCalls @
                   [DispatchEvent ''breakpointChange'' detail,
                    ConsoleLog (''[BreakpointManager] Breakpoint changed: '' @
                                showName (previousBreakpoint m2) @ '' '' @ arrow @ '' '' @
                                currentBreakpoint m2)])
         else (m, []))"

text \<open>Registration: \<^verbatim>\<open>push\<close> appends; a missing array is created first.\<close>

definition onChange :: "'cb \<Rightarrow> 'cb manager \<Rightarrow> 'cb manager" where
  "onChange callback m =
     m\<lparr>callbacks := (callbacks m)\<lparr>change := change (callbacks m) @ [callback]\<rparr>\<rparr>"

definition onEnter :: "string \<Rightarrow> 'cb \<Rightarrow> 'cb manager \<Rightarrow> 'cb manager" where
  "onEnter breakpoint callback m =
     (let reg = enter (callbacks m);
          reg1 = (case reg breakpoint of None \<Rightarrow> reg(breakpoint \<mapsto> []) | Some _ \<Rightarrow> reg);
          reg2 = (case reg1 breakpoint of
                    None \<Rightarrow> reg1
                  | Some cbs \<Rightarrow> reg1(breakpoint \<mapsto> cbs @ [callback]))
      in m\<lparr>callbacks := (callbacks m)\<lparr>enter := reg2\<rparr>\<rparr>)"

definition onExit :: "string \<Rightarrow> 'cb \<Rightarrow> 'cb manager \<Rightarrow> 'cb manager" where
  "onExit breakpoint callback m =
     (let reg = exit (callbacks m);
          reg1 = (case reg breakpoint of None \<Rightarrow> reg(breakpoint \<mapsto> []) | Some _ \<Rightarrow> reg);
          reg2 = (case reg1 breakpoint of
                    None \<Rightarrow> reg1
                  | Some cbs \<Rightarrow> reg1(breakpoint \<mapsto> cbs @ [callback]))
      in m\<lparr>callbacks := (callbacks m)\<lparr>exit := reg2\<rparr>\<rparr>)"

text \<open>\<^verbatim>\<open>is\<close>, \<^verbatim>\<open>isUp\<close>, \<^verbatim>\<open>isDown\<close>, \<^verbatim>\<open>get\<close>.\<close>

definition is_bp :: "'cb manager \<Rightarrow> string \<Rightarrow> bool" where
  "is_bp m breakpoint = (currentBreakpoint m = breakpoint)"

definition isUp :: "'cb manager \<Rightarrow> string \<Rightarrow> bool" where
  "isUp m breakpoint =
     (let currentIndex = indexOf breakpointNames (currentBreakpoint m);
          targetIndex = indexOf breakpointNames breakpoint
      in currentIndex \<ge> targetIndex)"

definition isDown :: "'cb manager \<Rightarrow> string \<Rightarrow> bool" where
  "isDown m breakpoint =
     (let currentIndex = indexOf breakpointNames (currentBreakpoint m);
          targetIndex = indexOf breakpointNames breakpoint
      in currentIndex \<le> targetIndex)"

definition get :: "'cb manager \<Rightarrow> string" where
  "get m = currentBreakpoint m"

text \<open>\<^verbatim>\<open>destroy\<close>: disconnect the observer if there is one, replace the registries.\<close>

definition destroy :: "'cb manager \<Rightarrow> 'cb manager" where
  "destroy m =
     (let m1 = (case resizeObserver m of
                  None \<Rightarrow> m
                | Some _ \<Rightarrow> m\<lparr>resizeObserver := Some Disconnected\<rparr>)
      in m1\<lparr>callbacks := \<lparr>change = [], enter = Map.empty, exit = Map.empty\<rparr>\<rparr>)"

section \<open>Resize notifications and the debounce timer\<close>

text \<open>
  The part of the browser that \<^verbatim>\<open>init\<close> and \<^verbatim>\<open>debounce\<close> use: the window, the timers
  set with \<^verbatim>\<open>setTimeout\<close> that have neither run nor been cleared, and the next timer
  handle (handles are positive). Durations are not modelled, only the order of events.
\<close>

record 'cb page =
  pageWindow :: window
  pageManager :: "'cb manager"
  scheduled :: "nat list"
  nextHandle :: nat

definition clearTimeout :: "nat \<Rightarrow> 'cb page \<Rightarrow> 'cb page" where
  "clearTimeout h p = p\<lparr>scheduled := removeAll h (scheduled p)\<rparr>"

definition setTimeout :: "'cb page \<Rightarrow> nat \<times> 'cb page" where
  "setTimeout p =
     (nextHandle p, p\<lparr>scheduled := scheduled p @ [nextHandle p], nextHandle := Suc (nextHandle p)\<rparr>)"

text \<open>
  The function returned by \<^verbatim>\<open>debounce\<close>, which the ResizeObserver calls:
  \<^verbatim>\<open>if (timeout) clearTimeout(timeout); timeout = window.setTimeout(...)\<close>.
\<close>

definition debounced :: "'cb page \<Rightarrow> 'cb page" where
  "debounced p =
     (let p1 = (case debounceTimeout (pageManager p) of
                  None \<Rightarrow> p
                | Some h \<Rightarrow> if h \<noteq> 0 then clearTimeout h p else p);
          (h', p2) = setTimeout p1
      in p2\<lparr>pageManager := (pageManager p2)\<lparr>debounceTimeout := Some h'\<rparr>\<rparr>)"

text \<open>
  Three things happen to a page: the window takes a new size; the body changes size, of
  which a connected observer is notified (it then calls the debounced function); and a
  scheduled timer runs, which calls \<^verbatim>\<open>checkBreakpointChange\<close>.
\<close>

datatype event = WindowResize window | BodyResize | Timeout nat

fun step :: "event \<Rightarrow> 'cb page \<Rightarrow> 'cb page \<times> 'cb effect list" where
  "step (WindowResize w) p = (p\<lparr>pageWindow := w\<rparr>, [])"
| "step BodyResize p =
     (if resizeObserver (pageManager p) = Some Observing then (debounced p, []) else (p, []))"
| "step (Timeout h) p =
     (if h \<in> set (scheduled p) then
        let p1 = clearTimeout h p;
            (m, effects) = checkBreakpointChange (pageWindow p1) (pageManager p1)
        in (p1\<lparr>pageManager := m\<rparr>, effects)
      else (p, []))"

fun run :: "event list \<Rightarrow> 'cb page \<Rightarrow> 'cb page \<times> 'cb effect list" where
  "run [] p = (p, [])"
| "run (e # es) p =
     (let (p1, effects1) = step e p;
          (p2, effects2) = run es p1
      in (p2, effects1 @ effects2))"

text \<open>Which effects are callback invocations.\<close>

fun isCall :: "'cb effect \<Rightarrow> bool" where
  "isCall (CallChange _ _ _) = True"
| "isCall (CallExit _ _) = True"
| "isCall (CallEnter _ _) = True"
| "isCall _ = False"

section \<open>ResponsiveNav\<close>

text \<open>
  The state that \<^verbatim>\<open>openMenu\<close> and \<^verbatim>\<open>closeMenu\<close> touch: the two flags of the object, the
  class lists of the menu and of the toggle (ordered sets of tokens), the attributes of
  the toggle, and \<^verbatim>\<open>document.body.style.overflow\<close>.
\<close>

record nav =
  isOpen :: bool
  isMobile :: bool
  menuClassList :: "string list"
  toggleClassList :: "string list"
  toggleAttributes :: "string \<rightharpoonup> string"
  bodyOverflow :: string

definition classAdd :: "string \<Rightarrow> string list \<Rightarrow> string list" where
  "classAdd c cs = (if c \<in> set cs then cs else cs @ [c])"

definition classRemove :: "string \<Rightarrow> string list \<Rightarrow> string list" where
  "classRemove c cs = removeAll c cs"

text \<open>
  What the navigation does besides changing this state: console lines, and moving the
  keyboard focus to the toggle.
\<close>

datatype navEffect = NavLog string | FocusToggle

definition openMenu :: "nav \<Rightarrow> nav \<times> navEffect list" where
  "openMenu s =
     (let s1 = s\<lparr>menuClassList := classAdd ''is-open'' (menuClassList s)\<rparr>;
          s2 = s1\<lparr>toggleClassList := classAdd ''is-active'' (toggleClassList s1)\<rparr>;
          s3 = s2\<lparr>toggleAttributes := (toggleAttributes s2)(''aria-expanded'' \<mapsto> ''true'')\<rparr>;
          s4 = s3\<lparr>isOpen := True\<rparr>;
          s5 = (if isMobile s4 then s4\<lparr>bodyOverflow := ''hidden''\<rparr> else s4)
      in (s5, [NavLog ''[ResponsiveNav] Menu opened'']))"

definition closeMenu :: "nav \<Rightarrow> nav \<times> navEffect list" where
  "closeMenu s =
     (let s1 = s\<lparr>menuClassList := classRemove ''is-open'' (menuClassList s)\<rparr>;
          s2 = s1\<lparr>toggleClassList := classRemove ''is-active'' (toggleClassList s1)\<rparr>;
          s3 = s2\<lparr>toggleAttributes := (toggleAttributes s2)(''aria-expanded'' \<mapsto> ''false'')\<rparr>;
          s4 = s3\<lparr>isOpen := False\<rparr>;
          s5 = s4\<lparr>bodyOverflow := []\<rparr>
      in (s5, [NavLog ''[ResponsiveNav] Menu closed'']))"

definition toggleMenu :: "nav \<Rightarrow> nav \<times> navEffect list" where
  "toggleMenu s = (if isOpen s then closeMenu s else openMenu s)"

text \<open>\<^verbatim>\<open>checkViewport\<close>, with the fixed \<^verbatim>\<open>mobileBreakpoint\<close> of 768.\<close>

definition mobileBreakpoint :: int where
  "mobileBreakpoint = 768"

definition checkViewport :: "window \<Rightarrow> nav \<Rightarrow> nav \<times> navEffect list" where
  "checkViewport win s =
     (let wasMobile = isMobile s;
          s1 = s\<lparr>isMobile := (innerWidth win < mobileBreakpoint)\<rparr>
      in if wasMobile \<and> \<not> isMobile s1 \<and> isOpen s1 then closeMenu s1 else (s1, []))"

text \<open>
  The listeners that \<^verbatim>\<open>init\<close> installs and that call \<open>closeMenu\<close>: a click anywhere in
  the document (\<open>inside\<close> tells whether the target lies within the navigation), a key
  press, and a click on a link of the menu.
\<close>

definition onDocumentClick :: "bool \<Rightarrow> nav \<Rightarrow> nav \<times> navEffect list" where
  "onDocumentClick inside s = (if isOpen s \<and> \<not> inside then closeMenu s else (s, []))"

definition onKeydown :: "string \<Rightarrow> nav \<Rightarrow> nav \<times> navEffect list" where
  "onKeydown key s =
     (if key = ''Escape'' \<and> isOpen s then
        let (s1, effects) = closeMenu s in (s1, effects @ [FocusToggle])
      else (s, []))"

definition onLinkClick :: "nav \<Rightarrow> nav \<times> navEffect list" where
  "onLinkClick s = (if isMobile s \<and> isOpen s then closeMenu s else (s, []))"

section \<open>UIUpdater: the breakpoint log\<close>

text \<open>
  The child nodes of the element with id \<^verbatim>\<open>breakpoint-log\<close>: elements with their text
  content, and other nodes (text, comments), which \<^verbatim>\<open>firstChild\<close> and \<^verbatim>\<open>lastChild\<close> see
  and \<^verbatim>\<open>children\<close> does not.
\<close>

datatype node = Element string | OtherNode string

fun isElement :: "node \<Rightarrow> bool" where
  "isElement (Element _) = True"
| "isElement (OtherNode _) = False"

definition children :: "node list \<Rightarrow> node list" where
  "children nodes = filter isElement nodes"

text \<open>\<^verbatim>\<open>String.prototype.toUpperCase\<close> on ASCII text.\<close>

definition upperChar :: "char \<Rightarrow> char" where
  "upperChar c =
     (let n = (of_char c :: nat) in if 97 \<le> n \<and> n \<le> 122 then char_of (n - 32) else c)"

definition toUpperCase :: "string \<Rightarrow> string" where
  "toUpperCase s = map upperChar s"

text \<open>
  \<^verbatim>\<open>while (children.length > 10) removeChild(lastChild)\<close>: each round removes the last
  child node, whatever its kind.
\<close>

function keepLast10 :: "node list \<Rightarrow> node list" where
  "keepLast10 nodes =
     (if length (children nodes) > 10 then keepLast10 (butlast nodes) else nodes)"
  by pat_completeness auto
termination
proof (relation "measure length")
  show "wf (measure length)" by simp
next
  fix nodes :: "node list"
  assume "10 < length (children nodes)"
  then have "nodes \<noteq> []" by (auto simp: children_def)
  then show "(butlast nodes, nodes) \<in> measure length" by simp
qed

declare keepLast10.simps [simp del]

text \<open>
  \<^verbatim>\<open>addLogEntry\<close>, on the log element (\<open>None\<close> when the page has none). The time string
  of \<^verbatim>\<open>new Date().toLocaleTimeString()\<close> is an argument.
\<close>

definition formatEntry :: "string \<Rightarrow> string \<Rightarrow> string \<Rightarrow> string" where
  "formatEntry timestamp oldBp newBp =
     timestamp @ '' - Changed from '' @ toUpperCase oldBp @ '' to '' @ toUpperCase newBp"

definition addLogEntry :: "string \<Rightarrow> string \<Rightarrow> string \<Rightarrow> node list option \<Rightarrow> node list option" where
  "addLogEntry timestamp oldBp newBp breakpointLogEl =
     (case breakpointLogEl of
        None \<Rightarrow> None
      | Some nodes \<Rightarrow>
          let entry = Element (formatEntry timestamp oldBp newBp)
          in Some (keepLast10 (entry # nodes)))"

text \<open>A series of log writes, first to last, each with its time string and names.\<close>

fun addLogEntries :: "(string \<times> string \<times> string) list \<Rightarrow> node list option \<Rightarrow> node list option" where
  "addLogEntries [] el = el"
| "addLogEntries ((ts, oldBp, newBp) # rest) el = addLogEntries rest (addLogEntry ts oldBp newBp el)"

section \<open>Reading the effects\<close>

text \<open>The change records handed to the page as \<^verbatim>\<open>breakpointChange\<close> events.\<close>

fun dispatched :: "'cb effect list \<Rightarrow> ViewportChangeDetail list" where
  "dispatched [] = []"
| "dispatched (DispatchEvent _ d # es) = d # dispatched es"
| "dispatched (_ # es) = dispatched es"

text \<open>The invocations of change callbacks, each with the record it received.\<close>

fun changeCalls :: "'cb effect list \<Rightarrow> ('cb \<times> ViewportChangeDetail) list" where
  "changeCalls [] = []"
| "changeCalls (CallChange cb d _ # es) = (cb, d) # changeCalls es"
| "changeCalls (_ # es) = changeCalls es"

text \<open>The array a registry holds for a name, empty when it holds none.\<close>

definition registered :: "(string \<rightharpoonup> 'cb list) \<Rightarrow> string \<Rightarrow> 'cb list" where
  "registered reg name = (case reg name of None \<Rightarrow> [] | Some cbs \<Rightarrow> cbs)"

text \<open>A series of registration calls, and what it registered, in order.\<close>

datatype 'cb registration = OnChange 'cb | OnEnter string 'cb | OnExit string 'cb

fun register :: "'cb registration \<Rightarrow> 'cb manager \<Rightarrow> 'cb manager" where
  "register (OnChange cb) m = onChange cb m"
| "register (OnEnter b cb) m = onEnter b cb m"
| "register (OnExit b cb) m = onExit b cb m"

fun registerAll :: "'cb registration list \<Rightarrow> 'cb manager \<Rightarrow> 'cb manager" where
  "registerAll [] m = m"
| "registerAll (r # rs) m = registerAll rs (register r m)"

fun changeRegs :: "'cb registration list \<Rightarrow> 'cb list" where
  "changeRegs [] = []"
| "changeRegs (OnChange cb # rs) = cb # changeRegs rs"
| "changeRegs (_ # rs) = changeRegs rs"

fun enterRegs :: "string \<Rightarrow> 'cb registration list \<Rightarrow> 'cb list" where
  "enterRegs name [] = []"
| "enterRegs name (OnEnter b cb # rs) =
     (if b = name then cb # enterRegs name rs else enterRegs name rs)"
| "enterRegs name (_ # rs) = enterRegs name rs"

fun exitRegs :: "string \<Rightarrow> 'cb registration list \<Rightarrow> 'cb list" where
  "exitRegs name [] = []"
| "exitRegs name (OnExit b cb # rs) =
     (if b = name then cb # exitRegs name rs else exitRegs name rs)"
| "exitRegs name (_ # rs) = exitRegs name rs"

text \<open>
  An effect agrees with its change record: the record names two different breakpoints,
  and a change callback finds the manager's fields equal to the record it is given.
\<close>

fun consistent :: "'cb effect \<Rightarrow> bool" where
  "consistent (CallChange cb d obs) =
     (oldBreakpoint d \<noteq> newBreakpoint d \<and> obsCurrent obs = newBreakpoint d \<and>
      obsPrevious obs = Some (oldBreakpoint d))"
| "consistent (DispatchEvent n d) = (oldBreakpoint d \<noteq> newBreakpoint d)"
| "consistent _ = True"

text \<open>A manager with no listener left, and a page whose manager is torn down.\<close>

definition quiet :: "'cb manager \<Rightarrow> bool" where
  "quiet m \<longleftrightarrow>
     change (callbacks m) = [] \<and> enter (callbacks m) = Map.empty \<and> exit (callbacks m) = Map.empty"

definition silenced :: "'cb page \<Rightarrow> bool" where
  "silenced p \<longleftrightarrow> quiet (pageManager p) \<and> resizeObserver (pageManager p) \<noteq> Some Observing"

text \<open>The list item that a log write creates.\<close>

definition entryOf :: "string \<times> string \<times> string \<Rightarrow> node" where
  "entryOf x = (case x of (ts, oldBp, newBp) \<Rightarrow> Element (formatEntry ts oldBp newBp))"

section \<open>Example states\<close>

text \<open>
  A manager created at width 575 with five listeners (callbacks are numbered), the page
  that holds it, a closed mobile navigation, and eleven log writes.
\<close>

definition exampleManager :: "nat manager" where
  "exampleManager =
     registerAll [OnEnter ''sm'' 1, OnChange 2, OnExit ''xs'' 3, OnChange 4, OnEnter ''md'' 5]
       (fst (newBreakpointManager \<lparr>innerWidth = 575, innerHeight = 800\<rparr>))"

definition examplePage :: "nat page" where
  "examplePage =
     \<lparr>pageWindow = \<lparr>innerWidth = 575, innerHeight = 800\<rparr>, pageManager = exampleManager,
      scheduled = [], nextHandle = 1\<rparr>"

definition exampleNav :: nav where
  "exampleNav =
     \<lparr>isOpen = False, isMobile = True, menuClassList = [''nav-menu''],
      toggleClassList = [''nav-toggle''],
      toggleAttributes = [''aria-expanded'' \<mapsto> ''false''], bodyOverflow = []\<rparr>"

definition exampleLog :: "(string \<times> string \<times> string) list" where
  "exampleLog =
     [(''09:00:01'', ''xs'', ''sm''), (''09:00:02'', ''sm'', ''md''), (''09:00:03'', ''md'', ''lg''),
      (''09:00:04'', ''lg'', ''xl''), (''09:00:05'', ''xl'', ''xxl''), (''09:00:06'', ''xxl'', ''xl''),
      (''09:00:07'', ''xl'', ''lg''), (''09:00:08'', ''lg'', ''md''), (''09:00:09'', ''md'', ''sm''),
      (''09:00:10'', ''sm'', ''xs''), (''09:00:11'', ''xs'', ''md'')]"

section \<open>Properties of the breakpoint computation\<close>

lemma getCurrentBreakpoint_cases:
  "getCurrentBreakpoint win =
     (if 1536 \<le> innerWidth win then ''xxl''
      else if 1280 \<le> innerWidth win then ''xl''
      else if 1024 \<le> innerWidth win then ''lg''
      else if 768 \<le> innerWidth win then ''md''
      else if 576 \<le> innerWidth win then ''sm''
      else ''xs'')"
  by (simp add: getCurrentBreakpoint_def breakpoints_def Let_def)

lemma getCurrentBreakpoint_name: "getCurrentBreakpoint win \<in> set breakpointNames"
  by (simp add: getCurrentBreakpoint_cases breakpointNames_def breakpoints_def)

lemma name_nonempty: "n \<in> set breakpointNames \<Longrightarrow> n \<noteq> []"
  by (auto simp: breakpointNames_def breakpoints_def)

text \<open>
  C1. For a viewport width \<open>w \<ge> 0\<close>, \<open>getCurrentBreakpoint\<close> returns a name of the table
  (never null) whose threshold is at most \<open>w\<close> and is the largest such threshold: \<open>xs\<close> on
  0..575, \<open>sm\<close> on 576..767, \<open>md\<close> on 768..1023, \<open>lg\<close> on 1024..1279, \<open>xl\<close> on 1280..1535
  and \<open>xxl\<close> from 1536 on.
\<close>

theorem getCurrentBreakpoint_widest:
  assumes "0 \<le> innerWidth win"
  shows "getCurrentBreakpoint win \<in> set breakpointNames \<and>
         (\<exists>t. (getCurrentBreakpoint win, t) \<in> set breakpoints \<and> t \<le> innerWidth win \<and>
              (\<forall>(n', t') \<in> set breakpoints. t' \<le> innerWidth win \<longrightarrow> t' \<le> t)) \<and>
         (innerWidth win \<le> 575 \<longrightarrow> getCurrentBreakpoint win = ''xs'') \<and>
         (576 \<le> innerWidth win \<and> innerWidth win \<le> 767 \<longrightarrow> getCurrentBreakpoint win = ''sm'') \<and>
         (768 \<le> innerWidth win \<and> innerWidth win \<le> 1023 \<longrightarrow> getCurrentBreakpoint win = ''md'') \<and>
         (1024 \<le> innerWidth win \<and> innerWidth win \<le> 1279 \<longrightarrow> getCurrentBreakpoint win = ''lg'') \<and>
         (1280 \<le> innerWidth win \<and> innerWidth win \<le> 1535 \<longrightarrow> getCurrentBreakpoint win = ''xl'') \<and>
         (1536 \<le> innerWidth win \<longrightarrow> getCurrentBreakpoint win = ''xxl'')"
  using assms
  by (simp add: getCurrentBreakpoint_cases breakpointNames_def breakpoints_def)

theorem getCurrentBreakpoint_widest_witness:
  "0 \<le> innerWidth \<lparr>innerWidth = 800, innerHeight = 600\<rparr> \<and>
   getCurrentBreakpoint \<lparr>innerWidth = 800, innerHeight = 600\<rparr> = ''md'' \<and>
   (''md'', 768) \<in> set breakpoints"
proof -
  have h: "0 \<le> innerWidth \<lparr>innerWidth = 800, innerHeight = 600\<rparr>" by simp
  show ?thesis
    using h getCurrentBreakpoint_widest [OF h] by (simp add: breakpoints_def)
qed

text \<open>
  C2. For widths \<open>0 \<le> w1 \<le> w2\<close>, \<open>getCurrentBreakpoint\<close> returns one table name for each,
  and the position of the first result in the list of names is at most the position of
  the second: the rank never decreases as the width grows.
\<close>

theorem getCurrentBreakpoint_rank_mono:
  assumes "0 \<le> innerWidth w1" and "innerWidth w1 \<le> innerWidth w2"
  shows "getCurrentBreakpoint w1 \<in> set breakpointNames \<and>
         getCurrentBreakpoint w2 \<in> set breakpointNames \<and>
         indexOf breakpointNames (getCurrentBreakpoint w1)
           \<le> indexOf breakpointNames (getCurrentBreakpoint w2)"
  using assms
  by (simp add: getCurrentBreakpoint_cases breakpointNames_def breakpoints_def)

theorem getCurrentBreakpoint_rank_mono_witness:
  "0 \<le> innerWidth \<lparr>innerWidth = 500, innerHeight = 600\<rparr> \<and>
   innerWidth \<lparr>innerWidth = 500, innerHeight = 600\<rparr> \<le> innerWidth \<lparr>innerWidth = 1300, innerHeight = 600\<rparr> \<and>
   indexOf breakpointNames (getCurrentBreakpoint \<lparr>innerWidth = 500, innerHeight = 600\<rparr>)
     \<le> indexOf breakpointNames (getCurrentBreakpoint \<lparr>innerWidth = 1300, innerHeight = 600\<rparr>)"
proof -
  have h1: "0 \<le> innerWidth \<lparr>innerWidth = 500, innerHeight = 600\<rparr>" by simp
  have h2: "innerWidth \<lparr>innerWidth = 500, innerHeight = 600\<rparr>
              \<le> innerWidth \<lparr>innerWidth = 1300, innerHeight = 600\<rparr>" by simp
  show ?thesis
    using h1 h2 getCurrentBreakpoint_rank_mono [OF h1 h2] by blast
qed

section \<open>Rank comparisons\<close>

lemma indexOf_mem: "x \<in> set xs \<Longrightarrow> 0 \<le> indexOf xs x"
  by (induction xs) (auto simp: Let_def)

lemma indexOf_notmem: "x \<notin> set xs \<Longrightarrow> indexOf xs x = -1"
  by (induction xs) (auto simp: Let_def)

lemma indexOf_inj: "x \<in> set xs \<Longrightarrow> indexOf xs x = indexOf xs y \<Longrightarrow> x = y"
  by (induction xs) (auto simp: Let_def split: if_splits dest: indexOf_mem)

text \<open>
  C5. For a name \<open>t\<close> of the table and any current breakpoint, \<open>isUp t\<close> holds exactly when
  the rank of the current breakpoint is at least the rank of \<open>t\<close>, \<open>isDown t\<close> exactly when
  it is at most the rank of \<open>t\<close>, and both hold exactly when the current breakpoint is
  \<open>t\<close>.
\<close>

theorem isUp_isDown_rank:
  assumes "t \<in> set breakpointNames"
  shows "(isUp m t \<longleftrightarrow>
            indexOf breakpointNames (currentBreakpoint m) \<ge> indexOf breakpointNames t) \<and>
         (isDown m t \<longleftrightarrow>
            indexOf breakpointNames (currentBreakpoint m) \<le> indexOf breakpointNames t) \<and>
         (isUp m t \<and> isDown m t \<longleftrightarrow> currentBreakpoint m = t)"
  using assms indexOf_inj [of t breakpointNames "currentBreakpoint m"]
  by (auto simp: isUp_def isDown_def Let_def)

theorem isUp_isDown_rank_witness:
  "''md'' \<in> set breakpointNames \<and>
   isUp (fst (newBreakpointManager \<lparr>innerWidth = 1300, innerHeight = 600\<rparr>) :: nat manager) ''md'' \<and>
   \<not> isDown (fst (newBreakpointManager \<lparr>innerWidth = 1300, innerHeight = 600\<rparr>) :: nat manager) ''md''"
proof -
  have h: "''md'' \<in> set breakpointNames"
    by (simp add: breakpointNames_def breakpoints_def)
  show ?thesis
    using h isUp_isDown_rank [OF h,
        of "fst (newBreakpointManager \<lparr>innerWidth = 1300, innerHeight = 600\<rparr>) :: nat manager"]
    by (simp add: newBreakpointManager_def getCurrentBreakpoint_cases breakpointNames_def
          breakpoints_def)
qed

text \<open>
  C6, as the spec states it, fails: a name outside the table has rank \<open>-1\<close>, and
  \<open>isUp\<close> compares with \<open>\<ge>\<close>, so it answers true. At width 800 the manager is at \<open>md\<close>
  and \<open>isUp\<close> of the unknown name \<open>tablet\<close> is true.
\<close>

theorem isUp_unknown_name_counterexample:
  "''tablet'' \<notin> set breakpointNames \<and>
   isUp (fst (newBreakpointManager \<lparr>innerWidth = 800, innerHeight = 600\<rparr>) :: nat manager) ''tablet''"
  by (simp add: isUp_def newBreakpointManager_def getCurrentBreakpoint_cases breakpointNames_def
        breakpoints_def)

text \<open>
  C6, amended. For a name \<open>n\<close> outside the table and a current breakpoint of the table,
  the rank of \<open>n\<close> is \<open>-1\<close>, \<open>isUp n\<close> is true and \<open>isDown n\<close> is false; both are plain
  comparisons of two \<open>indexOf\<close> results and raise nothing.
\<close>

theorem isUp_isDown_unknown_name:
  assumes "n \<notin> set breakpointNames" and "currentBreakpoint m \<in> set breakpointNames"
  shows "indexOf breakpointNames n = -1 \<and> isUp m n \<and> \<not> isDown m n"
  using indexOf_notmem [OF assms(1)] indexOf_mem [OF assms(2)]
  by (simp add: isUp_def isDown_def)

theorem isUp_isDown_unknown_name_witness:
  "''tablet'' \<notin> set breakpointNames \<and>
   currentBreakpoint (fst (newBreakpointManager \<lparr>innerWidth = 800, innerHeight = 600\<rparr>) :: nat manager)
     \<in> set breakpointNames \<and>
   isUp (fst (newBreakpointManager \<lparr>innerWidth = 800, innerHeight = 600\<rparr>) :: nat manager) ''tablet'' \<and>
   \<not> isDown (fst (newBreakpointManager \<lparr>innerWidth = 800, innerHeight = 600\<rparr>) :: nat manager) ''tablet''"
proof -
  have h1: "''tablet'' \<notin> set breakpointNames"
    by (simp add: breakpointNames_def breakpoints_def)
  have h2: "currentBreakpoint (fst (newBreakpointManager \<lparr>innerWidth = 800, innerHeight = 600\<rparr>) :: nat manager)
              \<in> set breakpointNames"
    by (simp add: newBreakpointManager_def getCurrentBreakpoint_name)
  show ?thesis
    using h1 h2 isUp_isDown_unknown_name [OF h1 h2] by blast
qed

section \<open>Breakpoint transitions\<close>

lemma dispatched_append: "dispatched (xs @ ys) = dispatched xs @ dispatched ys"
  by (induction xs rule: dispatched.induct) auto

lemma changeCalls_append: "changeCalls (xs @ ys) = changeCalls xs @ changeCalls ys"
  by (induction xs rule: changeCalls.induct) auto

lemma dispatched_calls:
  "dispatched (map (\<lambda>cb. CallChange cb d ob) cbs) = []"
  "dispatched (map (\<lambda>cb. CallExit cb ob) cbs) = []"
  "dispatched (map (\<lambda>cb. CallEnter cb ob) cbs) = []"
  by (induction cbs) auto

lemma changeCalls_calls:
  "changeCalls (map (\<lambda>cb. CallChange cb d ob) cbs) = map (\<lambda>cb. (cb, d)) cbs"
  "changeCalls (map (\<lambda>cb. CallExit cb ob) cbs) = []"
  "changeCalls (map (\<lambda>cb. CallEnter cb ob) cbs) = []"
  by (induction cbs) auto

lemma filter_isCall_calls:
  "filter isCall (map (\<lambda>cb. CallChange cb d ob) cbs) = map (\<lambda>cb. CallChange cb d ob) cbs"
  "filter isCall (map (\<lambda>cb. CallExit cb ob) cbs) = map (\<lambda>cb. CallExit cb ob) cbs"
  "filter isCall (map (\<lambda>cb. CallEnter cb ob) cbs) = map (\<lambda>cb. CallEnter cb ob) cbs"
  by (induction cbs) auto

lemma checkBreakpointChange_same:
  "getCurrentBreakpoint win = currentBreakpoint m \<Longrightarrow> checkBreakpointChange win m = (m, [])"
  by (simp add: checkBreakpointChange_def)

text \<open>What a transition does, with the local bindings of the method resolved.\<close>

lemma checkBreakpointChange_changed:
  assumes "getCurrentBreakpoint win \<noteq> currentBreakpoint m"
  shows "checkBreakpointChange win m =
    (m\<lparr>previousBreakpoint := Some (currentBreakpoint m),
       currentBreakpoint := getCurrentBreakpoint win\<rparr>,
     map (\<lambda>cb. CallChange cb
            \<lparr>oldBreakpoint = currentBreakpoint m, newBreakpoint = getCurrentBreakpoint win,
             width = innerWidth win, height = innerHeight win\<rparr>
            \<lparr>obsCurrent = getCurrentBreakpoint win, obsPrevious = Some (currentBreakpoint m)\<rparr>)
         (change (callbacks m)) @
     (if currentBreakpoint m = [] then []
      else map (\<lambda>cb. CallExit cb
                  \<lparr>obsCurrent = getCurrentBreakpoint win, obsPrevious = Some (currentBreakpoint m)\<rparr>)
             (registered (exit (callbacks m)) (currentBreakpoint m))) @
     map (\<lambda>cb. CallEnter cb
            \<lparr>obsCurrent = getCurrentBreakpoint win, obsPrevious = Some (currentBreakpoint m)\<rparr>)
         (registered (enter (callbacks m)) (getCurrentBreakpoint win)) @
     [DispatchEvent ''breakpointChange''
        \<lparr>oldBreakpoint = currentBreakpoint m, newBreakpoint = getCurrentBreakpoint win,
         width = innerWidth win, height = innerHeight win\<rparr>,
      ConsoleLog (''[BreakpointManager] Breakpoint changed: '' @ currentBreakpoint m @ '' '' @
                  arrow @ '' '' @ getCurrentBreakpoint win)])"
  using assms
  by (simp add: checkBreakpointChange_def Let_def observe_def registered_def showName_def
           split: option.splits)

text \<open>The current breakpoint is a name of the table from construction on.\<close>

lemma newBreakpointManager_current:
  "currentBreakpoint (fst (newBreakpointManager win)) \<in> set breakpointNames"
  by (simp add: newBreakpointManager_def getCurrentBreakpoint_name)

lemma checkBreakpointChange_current:
  "currentBreakpoint m \<in> set breakpointNames \<Longrightarrow>
     currentBreakpoint (fst (checkBreakpointChange win m)) \<in> set breakpointNames"
  by (cases "getCurrentBreakpoint win = currentBreakpoint m")
     (simp_all add: checkBreakpointChange_same checkBreakpointChange_changed
        getCurrentBreakpoint_name)

lemma exampleManager_current: "currentBreakpoint exampleManager = ''xs''"
  by (simp add: exampleManager_def newBreakpointManager_def getCurrentBreakpoint_cases
        onChange_def onEnter_def onExit_def Let_def)

text \<open>
  C3. When the recomputed breakpoint equals the stored one, \<open>checkBreakpointChange\<close>
  returns the manager as it was and produces no effect at all: no event, no callback.
  When it differs (crossing one threshold is such a case), one change record is
  dispatched, every change callback receives that same record once, the record's
  \<open>oldBreakpoint\<close> is the breakpoint held before and its \<open>newBreakpoint\<close> the recomputed
  one; the manager then holds the new breakpoint and remembers the old one.
\<close>

theorem checkBreakpointChange_event:
  "(getCurrentBreakpoint win = currentBreakpoint m \<longrightarrow> checkBreakpointChange win m = (m, [])) \<and>
   (getCurrentBreakpoint win \<noteq> currentBreakpoint m \<longrightarrow>
      dispatched (snd (checkBreakpointChange win m)) =
        [\<lparr>oldBreakpoint = currentBreakpoint m, newBreakpoint = getCurrentBreakpoint win,
          width = innerWidth win, height = innerHeight win\<rparr>] \<and>
      changeCalls (snd (checkBreakpointChange win m)) =
        map (\<lambda>cb. (cb, \<lparr>oldBreakpoint = currentBreakpoint m,
                         newBreakpoint = getCurrentBreakpoint win,
                         width = innerWidth win, height = innerHeight win\<rparr>))
            (change (callbacks m)) \<and>
      currentBreakpoint (fst (checkBreakpointChange win m)) = getCurrentBreakpoint win \<and>
      previousBreakpoint (fst (checkBreakpointChange win m)) = Some (currentBreakpoint m))"
  by (simp add: checkBreakpointChange_same checkBreakpointChange_changed dispatched_append
        changeCalls_append dispatched_calls changeCalls_calls)

theorem checkBreakpointChange_event_witness:
  "getCurrentBreakpoint \<lparr>innerWidth = 500, innerHeight = 800\<rparr> = currentBreakpoint exampleManager \<and>
   snd (checkBreakpointChange \<lparr>innerWidth = 500, innerHeight = 800\<rparr> exampleManager) = [] \<and>
   getCurrentBreakpoint \<lparr>innerWidth = 576, innerHeight = 800\<rparr> \<noteq> currentBreakpoint exampleManager \<and>
   dispatched (snd (checkBreakpointChange \<lparr>innerWidth = 576, innerHeight = 800\<rparr> exampleManager)) =
     [\<lparr>oldBreakpoint = ''xs'', newBreakpoint = ''sm'', width = 576, height = 800\<rparr>]"
proof -
  have h1: "getCurrentBreakpoint \<lparr>innerWidth = 500, innerHeight = 800\<rparr>
              = currentBreakpoint exampleManager"
    by (simp add: exampleManager_current getCurrentBreakpoint_cases)
  have h2: "getCurrentBreakpoint \<lparr>innerWidth = 576, innerHeight = 800\<rparr>
              \<noteq> currentBreakpoint exampleManager"
    by (simp add: exampleManager_current getCurrentBreakpoint_cases)
  have g: "getCurrentBreakpoint \<lparr>innerWidth = 576, innerHeight = 800\<rparr> = ''sm''"
    by (simp add: getCurrentBreakpoint_cases)
  show ?thesis
    using h1 h2
      checkBreakpointChange_event [of "\<lparr>innerWidth = 500, innerHeight = 800\<rparr>" exampleManager]
      checkBreakpointChange_event [of "\<lparr>innerWidth = 576, innerHeight = 800\<rparr>" exampleManager]
    by (simp add: exampleManager_current g)
qed

section \<open>Registration and invocation order\<close>

lemma onChange_regs:
  "change (callbacks (onChange cb m)) = change (callbacks m) @ [cb]"
  "enter (callbacks (onChange cb m)) = enter (callbacks m)"
  "exit (callbacks (onChange cb m)) = exit (callbacks m)"
  "currentBreakpoint (onChange cb m) = currentBreakpoint m"
  by (simp_all add: onChange_def)

lemma onEnter_regs:
  "change (callbacks (onEnter b cb m)) = change (callbacks m)"
  "registered (enter (callbacks (onEnter b cb m))) n =
     (if b = n then registered (enter (callbacks m)) n @ [cb]
      else registered (enter (callbacks m)) n)"
  "exit (callbacks (onEnter b cb m)) = exit (callbacks m)"
  "currentBreakpoint (onEnter b cb m) = currentBreakpoint m"
  by (simp_all add: onEnter_def registered_def Let_def split: option.splits)

lemma onExit_regs:
  "change (callbacks (onExit b cb m)) = change (callbacks m)"
  "registered (exit (callbacks (onExit b cb m))) n =
     (if b = n then registered (exit (callbacks m)) n @ [cb]
      else registered (exit (callbacks m)) n)"
  "enter (callbacks (onExit b cb m)) = enter (callbacks m)"
  "currentBreakpoint (onExit b cb m) = currentBreakpoint m"
  by (simp_all add: onExit_def registered_def Let_def split: option.splits)

lemma registerAll_regs:
  "change (callbacks (registerAll rs m)) = change (callbacks m) @ changeRegs rs \<and>
   registered (enter (callbacks (registerAll rs m))) n =
     registered (enter (callbacks m)) n @ enterRegs n rs \<and>
   registered (exit (callbacks (registerAll rs m))) n =
     registered (exit (callbacks m)) n @ exitRegs n rs \<and>
   currentBreakpoint (registerAll rs m) = currentBreakpoint m"
proof (induction rs arbitrary: m)
  case Nil
  then show ?case by simp
next
  case (Cons r rs)
  show ?case
    by (cases r) (simp_all add: Cons.IH onChange_regs onEnter_regs onExit_regs)
qed

text \<open>
  C4. Take a manager at a breakpoint of the table, register further listeners \<open>rs\<close> in
  any order, and let the breakpoint change. The callbacks invoked are, in this order:
  the change callbacks (those already there, then those of \<open>rs\<close>, in registration
  order), the exit callbacks of the previous breakpoint, the enter callbacks of the new
  one. Every one of them finds the manager's fields already updated, and the change
  callbacks receive the finished record.
\<close>

theorem callback_order:
  assumes "currentBreakpoint m \<in> set breakpointNames"
    and "getCurrentBreakpoint win \<noteq> currentBreakpoint m"
  shows "filter isCall (snd (checkBreakpointChange win (registerAll rs m))) =
     map (\<lambda>cb. CallChange cb
            \<lparr>oldBreakpoint = currentBreakpoint m, newBreakpoint = getCurrentBreakpoint win,
             width = innerWidth win, height = innerHeight win\<rparr>
            \<lparr>obsCurrent = getCurrentBreakpoint win, obsPrevious = Some (currentBreakpoint m)\<rparr>)
         (change (callbacks m) @ changeRegs rs) @
     map (\<lambda>cb. CallExit cb
            \<lparr>obsCurrent = getCurrentBreakpoint win, obsPrevious = Some (currentBreakpoint m)\<rparr>)
         (registered (exit (callbacks m)) (currentBreakpoint m) @
          exitRegs (currentBreakpoint m) rs) @
     map (\<lambda>cb. CallEnter cb
            \<lparr>obsCurrent = getCurrentBreakpoint win, obsPrevious = Some (currentBreakpoint m)\<rparr>)
         (registered (enter (callbacks m)) (getCurrentBreakpoint win) @
          enterRegs (getCurrentBreakpoint win) rs)"
proof -
  let ?m = "registerAll rs m"
  have cur: "currentBreakpoint ?m = currentBreakpoint m"
    using registerAll_regs [of rs m] by simp
  have ne: "currentBreakpoint m \<noteq> []"
    using assms(1) by (rule name_nonempty)
  have changed: "getCurrentBreakpoint win \<noteq> currentBreakpoint ?m"
    using assms(2) cur by simp
  show ?thesis
    unfolding checkBreakpointChange_changed [OF changed]
    using registerAll_regs [of rs m "currentBreakpoint m"]
          registerAll_regs [of rs m "getCurrentBreakpoint win"]
    by (simp add: cur ne filter_isCall_calls)
qed

theorem callback_order_witness:
  "currentBreakpoint (fst (newBreakpointManager \<lparr>innerWidth = 575, innerHeight = 800\<rparr>) :: nat manager)
     \<in> set breakpointNames \<and>
   getCurrentBreakpoint \<lparr>innerWidth = 576, innerHeight = 800\<rparr>
     \<noteq> currentBreakpoint (fst (newBreakpointManager \<lparr>innerWidth = 575, innerHeight = 800\<rparr>) :: nat manager) \<and>
   filter isCall (snd (checkBreakpointChange \<lparr>innerWidth = 576, innerHeight = 800\<rparr> exampleManager)) =
     [CallChange 2 \<lparr>oldBreakpoint = ''xs'', newBreakpoint = ''sm'', width = 576, height = 800\<rparr>
        \<lparr>obsCurrent = ''sm'', obsPrevious = Some ''xs''\<rparr>,
      CallChange 4 \<lparr>oldBreakpoint = ''xs'', newBreakpoint = ''sm'', width = 576, height = 800\<rparr>
        \<lparr>obsCurrent = ''sm'', obsPrevious = Some ''xs''\<rparr>,
      CallExit 3 \<lparr>obsCurrent = ''sm'', obsPrevious = Some ''xs''\<rparr>,
      CallEnter 1 \<lparr>obsCurrent = ''sm'', obsPrevious = Some ''xs''\<rparr>]"
proof -
  let ?m0 = "fst (newBreakpointManager \<lparr>innerWidth = 575, innerHeight = 800\<rparr>) :: nat manager"
  have c: "currentBreakpoint ?m0 = ''xs''"
    by (simp add: newBreakpointManager_def getCurrentBreakpoint_cases)
  have g: "getCurrentBreakpoint \<lparr>innerWidth = 576, innerHeight = 800\<rparr> = ''sm''"
    by (simp add: getCurrentBreakpoint_cases)
  have h1: "currentBreakpoint ?m0 \<in> set breakpointNames"
    by (simp add: c breakpointNames_def breakpoints_def)
  have h2: "getCurrentBreakpoint \<lparr>innerWidth = 576, innerHeight = 800\<rparr> \<noteq> currentBreakpoint ?m0"
    by (simp add: c g)
  have r: "change (callbacks ?m0) = [] \<and> registered (exit (callbacks ?m0)) ''xs'' = [] \<and>
           registered (enter (callbacks ?m0)) ''sm'' = []"
    by (simp add: newBreakpointManager_def registered_def)
  show ?thesis
    using h1 h2 callback_order [OF h1 h2,
        of "[OnEnter ''sm'' 1, OnChange 2, OnExit ''xs'' 3, OnChange 4, OnEnter ''md'' 5]"]
    by (simp add: exampleManager_def c g r)
qed

section \<open>Runs of a page\<close>

lemma step_Timeout:
  "step (Timeout h) p =
     (if h \<in> set (scheduled p)
      then ((clearTimeout h p)
              \<lparr>pageManager := fst (checkBreakpointChange (pageWindow p) (pageManager p))\<rparr>,
            snd (checkBreakpointChange (pageWindow p) (pageManager p)))
      else (p, []))"
  by (simp add: Let_def case_prod_beta clearTimeout_def)

lemma run_Cons:
  "run (e # es) p =
     (fst (run es (fst (step e p))), snd (step e p) @ snd (run es (fst (step e p))))"
  by (simp add: Let_def case_prod_beta)

lemma checkBreakpointChange_consistent:
  "list_all consistent (snd (checkBreakpointChange win m))"
proof (cases "getCurrentBreakpoint win = currentBreakpoint m")
  case True
  then show ?thesis by (simp add: checkBreakpointChange_same)
next
  case False
  have neq: "currentBreakpoint m \<noteq> getCurrentBreakpoint win"
    using False by simp
  show ?thesis
    unfolding checkBreakpointChange_changed [OF False]
    using False neq by (auto simp: list_all_iff)
qed

lemma step_consistent: "list_all consistent (snd (step e p))"
proof (cases e)
  case (WindowResize w)
  then show ?thesis by simp
next
  case BodyResize
  then show ?thesis by simp
next
  case (Timeout h)
  then show ?thesis
    by (simp add: step_Timeout checkBreakpointChange_consistent del: step.simps)
qed

text \<open>
  C10. Whatever happens to a page, in whatever order, every change record the manager
  emits names two different breakpoints, and every change callback is called with the
  manager's current breakpoint equal to the record's \<open>newBreakpoint\<close> and its previous
  breakpoint equal to the record's \<open>oldBreakpoint\<close>.
\<close>

theorem change_records_consistent: "list_all consistent (snd (run es p))"
proof (induction es arbitrary: p)
  case Nil
  then show ?case by simp
next
  case (Cons e es)
  have "list_all consistent (snd (step e p))"
    by (rule step_consistent)
  moreover have "list_all consistent (snd (run es (fst (step e p))))"
    by (rule Cons.IH)
  ultimately show ?case
    by (simp add: run_Cons del: run.simps)
qed

theorem change_records_consistent_witness:
  "snd (run [BodyResize, WindowResize \<lparr>innerWidth = 800, innerHeight = 600\<rparr>, Timeout 1] examplePage) \<noteq> [] \<and>
   list_all consistent
     (snd (run [BodyResize, WindowResize \<lparr>innerWidth = 800, innerHeight = 600\<rparr>, Timeout 1] examplePage))"
proof -
  have "snd (run [BodyResize, WindowResize \<lparr>innerWidth = 800, innerHeight = 600\<rparr>, Timeout 1] examplePage) \<noteq> []"
    by (simp add: examplePage_def exampleManager_def newBreakpointManager_def
          getCurrentBreakpoint_cases onChange_def onEnter_def onExit_def debounced_def
          setTimeout_def clearTimeout_def checkBreakpointChange_def Let_def)
  then show ?thesis
    using change_records_consistent
      [of "[BodyResize, WindowResize \<lparr>innerWidth = 800, innerHeight = 600\<rparr>, Timeout 1]" examplePage]
    by blast
qed

section \<open>Teardown\<close>

lemma destroy_quiet: "quiet (destroy m)"
  by (simp add: quiet_def destroy_def Let_def split: option.splits)

lemma destroy_not_observing: "resizeObserver (destroy m) \<noteq> Some Observing"
  by (simp add: destroy_def Let_def split: option.splits)

lemma checkBreakpointChange_quiet:
  assumes "quiet m"
  shows "quiet (fst (checkBreakpointChange win m)) \<and>
         filter isCall (snd (checkBreakpointChange win m)) = [] \<and>
         resizeObserver (fst (checkBreakpointChange win m)) = resizeObserver m"
proof (cases "getCurrentBreakpoint win = currentBreakpoint m")
  case True
  then show ?thesis using assms by (simp add: checkBreakpointChange_same)
next
  case False
  show ?thesis
    unfolding checkBreakpointChange_changed [OF False]
    using assms by (simp add: quiet_def registered_def)
qed

lemma step_silenced:
  assumes "silenced p"
  shows "silenced (fst (step e p)) \<and> filter isCall (snd (step e p)) = [] \<and>
         set (scheduled (fst (step e p))) \<subseteq> set (scheduled p)"
proof (cases e)
  case (WindowResize w)
  then show ?thesis using assms by (simp add: silenced_def)
next
  case BodyResize
  then show ?thesis using assms by (simp add: silenced_def)
next
  case (Timeout h)
  have q: "quiet (pageManager p)"
    using assms by (simp add: silenced_def)
  show ?thesis
    using Timeout assms checkBreakpointChange_quiet [OF q, of "pageWindow p"]
    by (simp add: step_Timeout silenced_def clearTimeout_def del: step.simps)
qed

lemma run_silenced:
  "silenced p \<Longrightarrow>
     filter isCall (snd (run es p)) = [] \<and> set (scheduled (fst (run es p))) \<subseteq> set (scheduled p)"
proof (induction es arbitrary: p)
  case Nil
  then show ?case by simp
next
  case (Cons e es)
  have s: "silenced (fst (step e p))" and c: "filter isCall (snd (step e p)) = []"
    and t: "set (scheduled (fst (step e p))) \<subseteq> set (scheduled p)"
    using step_silenced [OF Cons.prems] by simp_all
  have "filter isCall (snd (run es (fst (step e p)))) = [] \<and>
        set (scheduled (fst (run es (fst (step e p))))) \<subseteq> set (scheduled (fst (step e p)))"
    using Cons.IH [OF s] .
  with c t show ?case
    by (auto simp add: run_Cons simp del: run.simps)
qed

text \<open>
  C7. After \<open>destroy\<close> the three registries are empty and the observer is disconnected;
  from then on, whatever size changes and timers follow, no change, enter or exit
  callback is invoked, and no size change schedules a timer any more (only a timer
  scheduled before \<open>destroy\<close> can still run).
\<close>

theorem destroy_silences:
  "change (callbacks (destroy (pageManager p))) = [] \<and>
   enter (callbacks (destroy (pageManager p))) = Map.empty \<and>
   exit (callbacks (destroy (pageManager p))) = Map.empty \<and>
   resizeObserver (destroy (pageManager p)) \<noteq> Some Observing \<and>
   filter isCall (snd (run es (p\<lparr>pageManager := destroy (pageManager p)\<rparr>))) = [] \<and>
   set (scheduled (fst (run es (p\<lparr>pageManager := destroy (pageManager p)\<rparr>))))
     \<subseteq> set (scheduled p)"
proof -
  have "silenced (p\<lparr>pageManager := destroy (pageManager p)\<rparr>)"
    by (simp add: silenced_def destroy_quiet destroy_not_observing)
  then have "filter isCall (snd (run es (p\<lparr>pageManager := destroy (pageManager p)\<rparr>))) = [] \<and>
    set (scheduled (fst (run es (p\<lparr>pageManager := destroy (pageManager p)\<rparr>))))
      \<subseteq> set (scheduled (p\<lparr>pageManager := destroy (pageManager p)\<rparr>))"
    by (rule run_silenced)
  then show ?thesis
    using destroy_quiet [of "pageManager p"] destroy_not_observing [of "pageManager p"]
    by (simp add: quiet_def)
qed

theorem destroy_silences_witness:
  "filter isCall
     (snd (run [Timeout 1]
            (fst (run [WindowResize \<lparr>innerWidth = 800, innerHeight = 600\<rparr>, BodyResize] examplePage))))
     \<noteq> [] \<and>
   filter isCall
     (snd (run [Timeout 1, WindowResize \<lparr>innerWidth = 1300, innerHeight = 600\<rparr>, BodyResize, Timeout 2]
            ((fst (run [WindowResize \<lparr>innerWidth = 800, innerHeight = 600\<rparr>, BodyResize] examplePage))
               \<lparr>pageManager :=
                  destroy (pageManager
                    (fst (run [WindowResize \<lparr>innerWidth = 800, innerHeight = 600\<rparr>, BodyResize]
                           examplePage)))\<rparr>))) = []"
proof -
  have "filter isCall
     (snd (run [Timeout 1]
            (fst (run [WindowResize \<lparr>innerWidth = 800, innerHeight = 600\<rparr>, BodyResize] examplePage))))
     \<noteq> []"
    by (simp add: examplePage_def exampleManager_def newBreakpointManager_def
          getCurrentBreakpoint_cases onChange_def onEnter_def onExit_def debounced_def
          setTimeout_def clearTimeout_def checkBreakpointChange_def Let_def)
  then show ?thesis
    using destroy_silences
      [of "fst (run [WindowResize \<lparr>innerWidth = 800, innerHeight = 600\<rparr>, BodyResize] examplePage)"
          "[Timeout 1, WindowResize \<lparr>innerWidth = 1300, innerHeight = 600\<rparr>, BodyResize, Timeout 2]"]
    by blast
qed

section \<open>Navigation menu\<close>

text \<open>
  C8. \<open>openMenu\<close> sets \<open>aria-expanded\<close> to \<open>true\<close> and sets the body's overflow to
  \<open>hidden\<close> in mobile mode only, leaving it as it was otherwise. \<open>closeMenu\<close> always sets
  \<open>aria-expanded\<close> to \<open>false\<close> and clears the overflow, and closing a second time gives
  the same state as closing once. On a menu that is already closed, each listener that
  closes the menu (outside click, key press, link click) changes nothing and has no
  effect at all.
\<close>

theorem openMenu_closeMenu_state:
  "toggleAttributes (fst (openMenu s)) ''aria-expanded'' = Some ''true'' \<and>
   bodyOverflow (fst (openMenu s)) = (if isMobile s then ''hidden'' else bodyOverflow s) \<and>
   isOpen (fst (openMenu s)) \<and>
   toggleAttributes (fst (closeMenu s)) ''aria-expanded'' = Some ''false'' \<and>
   bodyOverflow (fst (closeMenu s)) = [] \<and>
   \<not> isOpen (fst (closeMenu s)) \<and>
   fst (closeMenu (fst (closeMenu s))) = fst (closeMenu s) \<and>
   (\<not> isOpen s \<longrightarrow>
      onDocumentClick inside s = (s, []) \<and> onKeydown key s = (s, []) \<and> onLinkClick s = (s, []))"
  by (simp add: openMenu_def closeMenu_def Let_def classRemove_def onDocumentClick_def
        onKeydown_def onLinkClick_def)

theorem openMenu_closeMenu_state_witness:
  "bodyOverflow (fst (openMenu exampleNav)) = ''hidden'' \<and>
   toggleAttributes (fst (openMenu exampleNav)) ''aria-expanded'' = Some ''true'' \<and>
   bodyOverflow (fst (openMenu (exampleNav\<lparr>isMobile := False\<rparr>))) = [] \<and>
   fst (closeMenu (fst (openMenu exampleNav))) = exampleNav \<and>
   fst (closeMenu exampleNav) = exampleNav \<and>
   \<not> isOpen exampleNav \<and>
   onDocumentClick False exampleNav = (exampleNav, []) \<and>
   onKeydown ''Escape'' exampleNav = (exampleNav, []) \<and>
   onLinkClick exampleNav = (exampleNav, [])"
proof -
  have c: "fst (closeMenu exampleNav) = exampleNav"
    by (simp add: closeMenu_def exampleNav_def Let_def classRemove_def)
  have o: "fst (closeMenu (fst (openMenu exampleNav))) = exampleNav"
    by (simp add: closeMenu_def openMenu_def exampleNav_def Let_def classRemove_def classAdd_def)
  have m: "isMobile exampleNav \<and> \<not> isMobile (exampleNav\<lparr>isMobile := False\<rparr>) \<and>
           bodyOverflow (exampleNav\<lparr>isMobile := False\<rparr>) = [] \<and> \<not> isOpen exampleNav"
    by (simp add: exampleNav_def)
  show ?thesis
    using c o m openMenu_closeMenu_state [of exampleNav False "''Escape''"]
      openMenu_closeMenu_state [of "exampleNav\<lparr>isMobile := False\<rparr>" False "''Escape''"]
    by simp
qed

section \<open>The bounded log\<close>

lemma keepLast10_bound: "length (children (keepLast10 nodes)) \<le> 10"
proof (induction nodes rule: keepLast10.induct)
  case (1 nodes)
  show ?case
  proof (cases "10 < length (children nodes)")
    case True
    then show ?thesis using "1.IH" by (subst keepLast10.simps) simp
  next
    case False
    then show ?thesis by (subst keepLast10.simps) simp
  qed
qed

lemma keepLast10_prefix: "\<exists>k. keepLast10 nodes = take k nodes"
proof (induction nodes rule: keepLast10.induct)
  case (1 nodes)
  show ?case
  proof (cases "10 < length (children nodes)")
    case True
    then obtain k where "keepLast10 (butlast nodes) = take k (butlast nodes)"
      using "1.IH" by blast
    then have "keepLast10 nodes = take (min k (length nodes - 1)) nodes"
      using True by (subst keepLast10.simps) (simp add: butlast_conv_take min.commute)
    then show ?thesis by blast
  next
    case False
    then have "keepLast10 nodes = take (length nodes) nodes"
      by (subst keepLast10.simps) simp
    then show ?thesis by blast
  qed
qed

lemma keepLast10_front:
  "keepLast10 (Element t # nodes) \<noteq> [] \<and> hd (keepLast10 (Element t # nodes)) = Element t"
proof -
  have "nodes' \<noteq> [] \<longrightarrow> isElement (hd nodes') \<longrightarrow>
        keepLast10 nodes' \<noteq> [] \<and> hd (keepLast10 nodes') = hd nodes'" for nodes'
  proof (induction nodes' rule: keepLast10.induct)
    case (1 nodes)
    show ?case
    proof (cases "10 < length (children nodes)")
      case True
      then have two: "length nodes \<ge> 2"
        using length_filter_le [of isElement nodes] unfolding children_def by linarith
      then have "butlast nodes \<noteq> []" and "hd (butlast nodes) = hd nodes"
        by (cases nodes; cases "tl nodes"; simp)+
      then show ?thesis
        using True "1.IH" by (subst (1 2) keepLast10.simps) simp
    next
      case False
      then show ?thesis by (subst (1 2) keepLast10.simps) simp
    qed
  qed
  from this [of "Element t # nodes"] show ?thesis by simp
qed

lemma keepLast10_elements:
  "list_all isElement nodes \<Longrightarrow> keepLast10 nodes = take 10 nodes"
proof (induction nodes rule: keepLast10.induct)
  case (1 nodes)
  have ch: "children nodes = nodes"
    using "1.prems" by (simp add: children_def list_all_iff)
  show ?case
  proof (cases "10 < length (children nodes)")
    case True
    have "list_all isElement (butlast nodes)"
      using "1.prems" by (auto simp: list_all_iff dest: in_set_butlastD)
    then have "keepLast10 (butlast nodes) = take 10 (butlast nodes)"
      using "1.IH" True by simp
    also have "\<dots> = take 10 nodes"
      using True ch by (simp add: butlast_conv_take)
    finally show ?thesis
      using True by (subst keepLast10.simps) simp
  next
    case False
    then show ?thesis using ch by (subst keepLast10.simps) simp
  qed
qed

lemma take_append_take: "take n (as @ take n bs) = take n (as @ bs)"
  by (simp add: min_def)

lemma addLogEntries_take:
  assumes "list_all isElement ns" and "length ns \<le> 10"
  shows "addLogEntries xs (Some ns) = Some (take 10 (rev (map entryOf xs) @ ns))"
  using assms
proof (induction xs arbitrary: ns)
  case Nil
  then show ?case by simp
next
  case (Cons x xs)
  obtain ts oldBp newBp where x: "x = (ts, oldBp, newBp)"
    by (cases x) auto
  let ?ns = "take 10 (entryOf x # ns)"
  have el: "list_all isElement (entryOf x # ns)"
    using Cons.prems(1) by (simp add: entryOf_def x)
  have step: "addLogEntry ts oldBp newBp (Some ns) = Some ?ns"
    using keepLast10_elements [OF el] by (simp add: addLogEntry_def entryOf_def x)
  have el': "list_all isElement ?ns"
    using el by (auto simp: list_all_iff dest: in_set_takeD)
  have len': "length ?ns \<le> 10"
    by simp
  have "addLogEntries (x # xs) (Some ns) = addLogEntries xs (Some ?ns)"
    by (simp add: x step)
  also have "\<dots> = Some (take 10 (rev (map entryOf xs) @ ?ns))"
    by (rule Cons.IH [OF el' len'])
  also have "take 10 (rev (map entryOf xs) @ ?ns)
               = take 10 (rev (map entryOf xs) @ (entryOf x # ns))"
    by (rule take_append_take)
  also have "rev (map entryOf xs) @ (entryOf x # ns) = rev (map entryOf (x # xs)) @ ns"
    by simp
  finally show ?case .
qed

text \<open>
  C9. One \<open>addLogEntry\<close> on an existing log element puts the new formatted entry first,
  removes nodes from the back only, and leaves at most 10 entries, whatever the element
  held before. After 11 writes into an empty log the log holds exactly the entries of
  writes 2 to 11, newest first: the last write is at the front and the first write is
  gone (it is no entry of the log when the 11 entries differ).
\<close>

theorem addLogEntry_bounded:
  "(\<exists>nodes'. addLogEntry ts oldBp newBp (Some nodes) = Some nodes' \<and>
       nodes' \<noteq> [] \<and> hd nodes' = Element (formatEntry ts oldBp newBp) \<and>
       length (children nodes') \<le> 10 \<and>
       (\<exists>k. nodes' = take k (Element (formatEntry ts oldBp newBp) # nodes))) \<and>
   (length xs = 11 \<longrightarrow>
      addLogEntries xs (Some []) = Some (map entryOf (rev (tl xs))) \<and>
      hd (map entryOf (rev (tl xs))) = entryOf (last xs) \<and>
      (distinct (map entryOf xs) \<longrightarrow> entryOf (hd xs) \<notin> set (map entryOf (rev (tl xs)))))"
proof -
  have a: "\<exists>nodes'. addLogEntry ts oldBp newBp (Some nodes) = Some nodes' \<and>
       nodes' \<noteq> [] \<and> hd nodes' = Element (formatEntry ts oldBp newBp) \<and>
       length (children nodes') \<le> 10 \<and>
       (\<exists>k. nodes' = take k (Element (formatEntry ts oldBp newBp) # nodes))"
    using keepLast10_front [of "formatEntry ts oldBp newBp" nodes]
      keepLast10_bound [of "Element (formatEntry ts oldBp newBp) # nodes"]
      keepLast10_prefix [of "Element (formatEntry ts oldBp newBp) # nodes"]
    by (simp add: addLogEntry_def)
  have b: "addLogEntries xs (Some []) = Some (map entryOf (rev (tl xs))) \<and>
      hd (map entryOf (rev (tl xs))) = entryOf (last xs) \<and>
      (distinct (map entryOf xs) \<longrightarrow> entryOf (hd xs) \<notin> set (map entryOf (rev (tl xs))))"
    if len: "length xs = 11"
  proof -
    obtain y ys where xs: "xs = y # ys" and ys: "length ys = 10"
      using len by (cases xs) auto
    have "addLogEntries xs (Some []) = Some (take 10 (rev (map entryOf xs)))"
      using addLogEntries_take [of "[]" xs] by simp
    also have "take 10 (rev (map entryOf xs)) = map entryOf (rev (tl xs))"
      using ys by (simp add: xs rev_map)
    finally have 1: "addLogEntries xs (Some []) = Some (map entryOf (rev (tl xs)))" .
    have "ys \<noteq> []" using ys by auto
    then have 2: "hd (map entryOf (rev (tl xs))) = entryOf (last xs)"
      by (simp add: xs hd_map hd_rev)
    have 3: "distinct (map entryOf xs) \<longrightarrow> entryOf (hd xs) \<notin> set (map entryOf (rev (tl xs)))"
      by (auto simp: xs)
    from 1 2 3 show ?thesis by blast
  qed
  from a b show ?thesis by blast
qed

theorem addLogEntry_bounded_witness:
  "length exampleLog = 11 \<and> distinct (map entryOf exampleLog) \<and>
   addLogEntries exampleLog (Some []) = Some (map entryOf (rev (tl exampleLog))) \<and>
   entryOf (hd exampleLog) \<notin> set (map entryOf (rev (tl exampleLog))) \<and>
   hd (map entryOf (rev (tl exampleLog))) = entryOf (''09:00:11'', ''xs'', ''md'')"
proof -
  have h: "length exampleLog = 11"
    by (simp add: exampleLog_def)
  have d: "distinct (map entryOf exampleLog)"
    by (simp add: exampleLog_def entryOf_def formatEntry_def)
  have l: "last exampleLog = (''09:00:11'', ''xs'', ''md'')"
    by (simp add: exampleLog_def)
  show ?thesis
    using h d l addLogEntry_bounded [of "''09:00:12''" "''md''" "''lg''" "[]" exampleLog]
    by simp
qed

end
